theory Spec2Isabelle
  imports Main "HOL-Library.Sublist" "HOL-Library.Multiset" "HOL-Library.Product_Lexorder"
begin

section \<open>Values read from feature_list.json\<close>

text \<open>
  \<^verbatim>\<open>analyze_features.py\<close> is one script: it loads \<^verbatim>\<open>feature_list.json\<close>, collects the
  1-based numbers of the features that pass, filters the other features by five criteria,
  sorts the survivors and prints the first ten.

  What \<^verbatim>\<open>json.load\<close> returns is a Python value built from \<^verbatim>\<open>None\<close>, booleans, numbers,
  strings, lists and dicts. The script never checks the shape of what it reads, so the model
  keeps all of these shapes and writes out what Python does with each. Two limits: a number is
  an integer (JSON numbers with a fraction or an exponent are outside the model), and a
  string is a list of 8-bit characters, of which \<^verbatim>\<open>lower()\<close> changes the letters A to Z only
  (every keyword the script looks for is made of ASCII letters and a space). A dict is the
  association list of its entries, one entry for each key, read with \<open>map_of\<close>.
\<close>

datatype json =
    JNull
  | JBool bool
  | JInt int
  | JStr string
  | JArr "json list"
  | JObj "(string \<times> json) list"

datatype error = OSError | JSONDecodeError | TypeError | AttributeError

text \<open>Python's truth value of an object, as \<^verbatim>\<open>if x:\<close> tests it.\<close>

fun truthy :: "json \<Rightarrow> bool" where
  "truthy JNull = False"
| "truthy (JBool b) = b"
| "truthy (JInt n) = (n \<noteq> 0)"
| "truthy (JStr s) = (s \<noteq> [])"
| "truthy (JArr xs) = (xs \<noteq> [])"
| "truthy (JObj kvs) = (kvs \<noteq> [])"

text \<open>\<^verbatim>\<open>d.get(key, default)\<close> on a dict.\<close>

definition dict_get :: "(string \<times> json) list \<Rightarrow> string \<Rightarrow> json \<Rightarrow> json" where
  "dict_get d key dflt = (case map_of d key of None \<Rightarrow> dflt | Some v \<Rightarrow> v)"

text \<open>
  \<^verbatim>\<open>x.get(key, default)\<close> on any value: only a dict has the method, every other value
  raises \<^verbatim>\<open>AttributeError\<close>.
\<close>

fun get :: "json \<Rightarrow> string \<Rightarrow> json \<Rightarrow> error + json" where
  "get (JObj d) key dflt = Inr (dict_get d key dflt)"
| "get _ key dflt = Inl AttributeError"

text \<open>
  Iterating over a value (\<^verbatim>\<open>for ... in x\<close>, \<^verbatim>\<open>enumerate(x)\<close>): a list gives its elements, a
  dict its keys, a string its characters as one-character strings; \<^verbatim>\<open>None\<close>, a boolean and
  a number raise \<^verbatim>\<open>TypeError\<close>.
\<close>

fun py_iter :: "json \<Rightarrow> error + json list" where
  "py_iter (JArr xs) = Inr xs"
| "py_iter (JObj kvs) = Inr (map (\<lambda>kv. JStr (fst kv)) kvs)"
| "py_iter (JStr s) = Inr (map (\<lambda>c. JStr [c]) s)"
| "py_iter _ = Inl TypeError"

text \<open>
  \<^verbatim>\<open>str.lower()\<close>: the letters A to Z become a to z. Any other value than a string has no
  method \<^verbatim>\<open>lower\<close>.
\<close>

definition lower_char :: "char \<Rightarrow> char" where
  "lower_char c =
     (case map_of (zip ''ABCDEFGHIJKLMNOPQRSTUVWXYZ'' ''abcdefghijklmnopqrstuvwxyz'') c of
        None \<Rightarrow> c
      | Some l \<Rightarrow> l)"

definition lower :: "string \<Rightarrow> string" where
  "lower s = map lower_char s"

fun py_lower :: "json \<Rightarrow> error + string" where
  "py_lower (JStr s) = Inr (lower s)"
| "py_lower _ = Inl AttributeError"

text \<open>\<^verbatim>\<open>keyword in description\<close> on two strings: a contiguous substring.\<close>

definition substring_in :: "string \<Rightarrow> string \<Rightarrow> bool" where
  "substring_in keyword s = sublist keyword s"

text \<open>
  \<^verbatim>\<open>dep in passing_tests\<close>, where \<^verbatim>\<open>passing_tests\<close> is a set of integers: the value is hashed
  first, so a list or a dict raises \<^verbatim>\<open>TypeError\<close>; \<^verbatim>\<open>True\<close> and \<^verbatim>\<open>False\<close> hash and compare
  as 1 and 0; a string and \<^verbatim>\<open>None\<close> equal no integer.
\<close>

fun py_in :: "json \<Rightarrow> int set \<Rightarrow> error + bool" where
  "py_in (JInt n) S = Inr (n \<in> S)"
| "py_in (JBool b) S = Inr ((if b then 1 else 0) \<in> S)"
| "py_in (JStr s) S = Inr False"
| "py_in JNull S = Inr False"
| "py_in (JArr xs) S = Inl TypeError"
| "py_in (JObj kvs) S = Inl TypeError"

section \<open>The passing tests\<close>

text \<open>
  \<^verbatim>\<open>
  passing_tests = set()
  for i, feature in enumerate(features):
      if feature.get('passes', False):
          passing_tests.add(i + 1)
  \<close>
\<close>

fun passing_loop :: "int \<Rightarrow> json list \<Rightarrow> int set \<Rightarrow> error + int set" where
  "passing_loop i [] passing = Inr passing"
| "passing_loop i (feature # rest) passing =
     (case get feature ''passes'' (JBool False) of
        Inl e \<Rightarrow> Inl e
      | Inr v \<Rightarrow> passing_loop (i + 1) rest (if truthy v then insert (i + 1) passing else passing))"

definition passing_tests :: "json \<Rightarrow> error + int set" where
  "passing_tests features =
     (case py_iter features of
        Inl e \<Rightarrow> Inl e
      | Inr fs \<Rightarrow> passing_loop 0 fs {})"

section \<open>The eligible features\<close>

record candidate =
  test_num :: int
  description :: json
  complexity :: json
  dependencies :: json
  category :: json

definition frontend_keywords :: "string list" where
  "frontend_keywords =
     [''ui'', ''page'', ''navigate'', ''button'', ''display'', ''viewer'', ''interface'',
      ''layout'', ''design'', ''responsive'', ''dark mode'', ''logout'', ''settings'',
      ''loading'', ''error'', ''form'', ''input'', ''modal'', ''dialog'']"

text \<open>
  \<^verbatim>\<open>all(dep in passing_tests for dep in deps)\<close> over the items of \<^verbatim>\<open>deps\<close>: it stops at the
  first dependency that is not in the set.
\<close>

fun all_passing :: "json list \<Rightarrow> int set \<Rightarrow> error + bool" where
  "all_passing [] passing = Inr True"
| "all_passing (dep # deps) passing =
     (case py_in dep passing of
        Inl e \<Rightarrow> Inl e
      | Inr False \<Rightarrow> Inr False
      | Inr True \<Rightarrow> all_passing deps passing)"

text \<open>
  Filter 2. \<^verbatim>\<open>if deps: if not all(...): continue\<close>: the result is whether the loop goes on
  to the next filter.
\<close>

definition deps_met :: "json \<Rightarrow> int set \<Rightarrow> error + bool" where
  "deps_met deps passing =
     (if truthy deps then
        (case py_iter deps of
           Inl e \<Rightarrow> Inl e
         | Inr items \<Rightarrow> all_passing items passing)
      else Inr True)"

text \<open>
  The body of the second loop for one feature: \<open>Inr None\<close> is \<^verbatim>\<open>continue\<close>,
  \<open>Inr (Some c)\<close> is \<^verbatim>\<open>candidates.append(c)\<close>. The filters run in the order of the source:
  1 (passes), 3 (database), 4 (complexity), 2 (dependencies), 5 (frontend). The first
  statement is \<^verbatim>\<open>feature.get('passes', True)\<close>, which raises on anything but a dict.
\<close>

fun loop_body :: "int set \<Rightarrow> int \<Rightarrow> json \<Rightarrow> error + candidate option" where
  "loop_body passing num (JObj feature) =
     (if truthy (dict_get feature ''passes'' (JBool True)) then Inr None
      else
        (case py_lower (dict_get feature ''description'' (JStr '''')) of
           Inl e \<Rightarrow> Inl e
         | Inr descr \<Rightarrow>
             if substring_in ''database'' descr \<or> substring_in ''postgresql'' descr then Inr None
             else if dict_get feature ''complexity'' JNull \<notin> set [JStr ''simple'', JStr ''medium'']
               then Inr None
             else
               (let deps = dict_get feature ''dependencies'' (JArr []) in
                case deps_met deps passing of
                  Inl e \<Rightarrow> Inl e
                | Inr False \<Rightarrow> Inr None
                | Inr True \<Rightarrow>
                    if \<not> list_ex (\<lambda>keyword. substring_in keyword descr) frontend_keywords
                    then Inr None
                    else Inr (Some \<lparr>test_num = num,
                                    description = dict_get feature ''description'' (JStr ''''),
                                    complexity = dict_get feature ''complexity'' (JStr ''''),
                                    dependencies = deps,
                                    category = dict_get feature ''category'' (JStr '''')\<rparr>))))"
| "loop_body passing num _ = Inl AttributeError"

text \<open>
  \<^verbatim>\<open>for i, feature in enumerate(features): test_num = i + 1; ...\<close> with the list
  \<^verbatim>\<open>candidates\<close> as accumulator.
\<close>

fun candidates_loop :: "int set \<Rightarrow> int \<Rightarrow> json list \<Rightarrow> candidate list \<Rightarrow> error + candidate list" where
  "candidates_loop passing i [] candidates = Inr candidates"
| "candidates_loop passing i (feature # rest) candidates =
     (case loop_body passing (i + 1) feature of
        Inl e \<Rightarrow> Inl e
      | Inr None \<Rightarrow> candidates_loop passing (i + 1) rest candidates
      | Inr (Some c) \<Rightarrow> candidates_loop passing (i + 1) rest (candidates @ [c]))"

definition find_candidates :: "json \<Rightarrow> int set \<Rightarrow> error + candidate list" where
  "find_candidates features passing =
     (case py_iter features of
        Inl e \<Rightarrow> Inl e
      | Inr fs \<Rightarrow> candidates_loop passing 0 fs [])"

section \<open>Ranking\<close>

text \<open>
  \<^verbatim>\<open>candidates.sort(key=lambda x: (x['complexity'] == 'medium', x['test_num']))\<close>: a stable
  sort on pairs compared lexicographically, \<^verbatim>\<open>False\<close> before \<^verbatim>\<open>True\<close>.
\<close>

definition rank_key :: "candidate \<Rightarrow> bool \<times> int" where
  "rank_key x = (complexity x = JStr ''medium'', test_num x)"

definition rank :: "candidate list \<Rightarrow> candidate list" where
  "rank candidates = sort_key rank_key candidates"

section \<open>The report\<close>

text \<open>
  The output is the list of the lines printed. A line keeps the values that its format
  string shows rather than their decimal or \<^verbatim>\<open>repr\<close> text:
  \<^item> \<open>Text s\<close>: a fixed line;
  \<^item> \<open>Numbers ns\<close>: \<^verbatim>\<open>print(sorted(passing_tests))\<close>;
  \<^item> \<open>Blank\<close>: \<^verbatim>\<open>print()\<close>;
  \<^item> \<open>Title i n d\<close>: \<^verbatim>\<open>f"{i}. TEST {cand['test_num']}: {cand['description']}"\<close>;
  \<^item> \<open>Complexity c\<close>, \<open>Category c\<close>, \<open>Dependencies d\<close>: the three indented lines.
\<close>

datatype line =
    Text string
  | Numbers "int list"
  | Blank
  | Title nat int json
  | Complexity json
  | Category json
  | Dependencies json

definition block :: "nat \<times> candidate \<Rightarrow> line list" where
  "block ic =
     (case ic of (i, cand) \<Rightarrow>
       [Title i (test_num cand) (description cand),
        Complexity (complexity cand),
        Category (category cand),
        Dependencies (if truthy (dependencies cand) then dependencies cand else JStr ''None''),
        Blank])"

text \<open>\<^verbatim>\<open>for i, cand in enumerate(candidates[:10], 1): ...\<close>\<close>

definition report :: "candidate list \<Rightarrow> line list" where
  "report candidates = concat (map block (List.enumerate 1 (take 10 candidates)))"

section \<open>The script\<close>

text \<open>
  \<^verbatim>\<open>with open('feature_list.json', 'r') as f: features = json.load(f)\<close>. The file is its
  content, or \<open>None\<close> when it cannot be opened. The parser of the standard library is a
  parameter: it gives \<open>None\<close> where \<^verbatim>\<open>json.load\<close> raises \<^verbatim>\<open>JSONDecodeError\<close>.
\<close>

definition load :: "(string \<Rightarrow> json option) \<Rightarrow> string option \<Rightarrow> error + json" where
  "load parse file =
     (case file of
        None \<Rightarrow> Inl OSError
      | Some content \<Rightarrow>
          (case parse content of
             None \<Rightarrow> Inl JSONDecodeError
           | Some v \<Rightarrow> Inr v))"

record run =
  raised :: "error option"
  printed :: "line list"

text \<open>
  The statements of the script from the first loop on, given the value loaded. The lines of
  the passing tests are printed before the second loop starts.
\<close>

definition analyze :: "json \<Rightarrow> run" where
  "analyze features =
     (case passing_tests features of
        Inl e \<Rightarrow> \<lparr>raised = Some e, printed = []\<rparr>
      | Inr passing \<Rightarrow>
          (let out = [Text ''=== PASSING TESTS ==='', Numbers (sorted_list_of_set passing), Blank] in
           case find_candidates features passing of
             Inl e \<Rightarrow> \<lparr>raised = Some e, printed = out\<rparr>
           | Inr candidates \<Rightarrow>
               \<lparr>raised = None,
                printed = out @
                  [Text ''=== ELIGIBLE FEATURES (passes=false, simple/medium, no DB, dependencies met) ==='',
                   Blank] @ report (rank candidates)\<rparr>))"

definition script :: "(string \<Rightarrow> json option) \<Rightarrow> string option \<Rightarrow> run" where
  "script parse file =
     (case load parse file of
        Inl e \<Rightarrow> \<lparr>raised = Some e, printed = []\<rparr>
      | Inr features \<Rightarrow> analyze features)"

section \<open>Reading the input records\<close>

text \<open>
  The properties below speak about the records of the input: the field of a record (absent
  when the key is missing), and the record that has a given 1-based number.
\<close>

definition is_dict :: "json \<Rightarrow> bool" where
  "is_dict f = (case f of JObj d \<Rightarrow> True | _ \<Rightarrow> False)"

definition field_of :: "json \<Rightarrow> string \<Rightarrow> json option" where
  "field_of f key = (case f of JObj d \<Rightarrow> map_of d key | _ \<Rightarrow> None)"

definition record_of :: "json \<Rightarrow> int \<Rightarrow> json option" where
  "record_of features n =
     (case py_iter features of
        Inl e \<Rightarrow> None
      | Inr fs \<Rightarrow> if 1 \<le> n \<and> n \<le> int (length fs) then Some (fs ! nat (n - 1)) else None)"

text \<open>
  The data model types \<^verbatim>\<open>passes\<close> as a boolean: a feature record is a dict whose
  \<^verbatim>\<open>passes\<close> field, when it is there, is \<^verbatim>\<open>true\<close> or \<^verbatim>\<open>false\<close>.
\<close>

definition passes_boolean :: "json \<Rightarrow> bool" where
  "passes_boolean f =
     (is_dict f \<and>
      (case field_of f ''passes'' of None \<Rightarrow> True | Some (JBool b) \<Rightarrow> True | Some _ \<Rightarrow> False))"

text \<open>
  The data model types the other fields too: \<^verbatim>\<open>description\<close>, \<^verbatim>\<open>complexity\<close> and
  \<^verbatim>\<open>category\<close> are strings and \<^verbatim>\<open>dependencies\<close> is a list of test numbers, each of them
  optional. On such records no statement of the script raises.
\<close>

fun is_string :: "json \<Rightarrow> bool" where
  "is_string (JStr s) = True"
| "is_string _ = False"

fun is_integer :: "json \<Rightarrow> bool" where
  "is_integer (JInt n) = True"
| "is_integer _ = False"

fun is_id_list :: "json \<Rightarrow> bool" where
  "is_id_list (JArr xs) = list_all is_integer xs"
| "is_id_list _ = False"

definition optional :: "(json \<Rightarrow> bool) \<Rightarrow> json option \<Rightarrow> bool" where
  "optional p v = (case v of None \<Rightarrow> True | Some x \<Rightarrow> p x)"

definition feature_record :: "json \<Rightarrow> bool" where
  "feature_record f =
     (passes_boolean f \<and>
      optional is_string (field_of f ''description'') \<and>
      optional is_string (field_of f ''complexity'') \<and>
      optional is_id_list (field_of f ''dependencies'') \<and>
      optional is_string (field_of f ''category''))"

text \<open>A candidate block of the report starts with its title line.\<close>

fun is_title :: "line \<Rightarrow> bool" where
  "is_title (Title i n d) = True"
| "is_title _ = False"

section \<open>Sample inputs\<close>

text \<open>
  Eight records: 1 passes; 2 is eligible and depends on 1; 3 has no \<^verbatim>\<open>passes\<close> field; 4
  mentions PostgreSQL; 5 is complex; 6 depends on 3, which does not pass; 7 is eligible through
  the letters "ui" inside "Rebuild"; 8 is eligible. \<open>sample_candidates\<close> is what the second
  loop collects from them, in input order.
\<close>

definition sample_features :: json where
  "sample_features = JArr
     [JObj [(''passes'', JBool True)],
      JObj [(''passes'', JBool False), (''description'', JStr ''Add dark mode toggle button''),
            (''complexity'', JStr ''simple''), (''dependencies'', JArr [JInt 1]),
            (''category'', JStr ''UI'')],
      JObj [(''description'', JStr ''Settings page''), (''complexity'', JStr ''simple'')],
      JObj [(''passes'', JBool False), (''description'', JStr ''PostgreSQL settings UI''),
            (''complexity'', JStr ''simple'')],
      JObj [(''passes'', JBool False), (''description'', JStr ''Logout button''),
            (''complexity'', JStr ''complex'')],
      JObj [(''passes'', JBool False), (''description'', JStr ''Error dialog''),
            (''complexity'', JStr ''medium''), (''dependencies'', JArr [JInt 3])],
      JObj [(''passes'', JBool False), (''description'', JStr ''Rebuild the cache''),
            (''complexity'', JStr ''medium''), (''category'', JStr ''Backend'')],
      JObj [(''passes'', JBool False), (''description'', JStr ''Loading spinner''),
            (''complexity'', JStr ''simple'')]]"

definition sample_candidates :: "candidate list" where
  "sample_candidates =
     [\<lparr>test_num = 2, description = JStr ''Add dark mode toggle button'',
       complexity = JStr ''simple'', dependencies = JArr [JInt 1], category = JStr ''UI''\<rparr>,
      \<lparr>test_num = 7, description = JStr ''Rebuild the cache'',
       complexity = JStr ''medium'', dependencies = JArr [], category = JStr ''Backend''\<rparr>,
      \<lparr>test_num = 8, description = JStr ''Loading spinner'',
       complexity = JStr ''simple'', dependencies = JArr [], category = JStr ''''\<rparr>]"

text \<open>Twelve copies of one eligible record: more candidates than the report shows.\<close>

definition eligible_record :: json where
  "eligible_record =
     JObj [(''passes'', JBool False), (''description'', JStr ''Loading spinner''),
           (''complexity'', JStr ''simple''), (''dependencies'', JArr []), (''category'', JStr ''UI'')]"

definition twelve_records :: "json list" where
  "twelve_records = replicate 12 eligible_record"

section \<open>Properties of the passing tests\<close>

lemma passing_loop_mem:
  "passing_loop i fs acc = Inr P \<Longrightarrow>
   (n \<in> P) = (n \<in> acc \<or> (\<exists>k<length fs. n = i + int k + 1 \<and>
                  (\<exists>d. fs ! k = JObj d \<and> truthy (dict_get d ''passes'' (JBool False)))))"
proof (induction fs arbitrary: i acc)
  case Nil
  then show ?case by simp
next
  case (Cons f fs)
  from Cons.prems obtain d where f: "f = JObj d"
    by (cases f) auto
  let ?acc = "if truthy (dict_get d ''passes'' (JBool False)) then insert (i + 1) acc else acc"
  from Cons.prems f have "passing_loop (i + 1) fs ?acc = Inr P"
    by simp
  from Cons.IH [OF this] show ?case
    by (auto simp: f Ex_less_Suc2 algebra_simps split: if_splits)
qed

lemma passing_loop_total:
  "\<forall>f\<in>set fs. is_dict f \<Longrightarrow> \<exists>P. passing_loop i fs acc = Inr P"
proof (induction fs arbitrary: i acc)
  case Nil
  then show ?case by simp
next
  case (Cons f fs)
  then obtain d where "f = JObj d"
    by (cases f) (auto simp: is_dict_def)
  with Cons show ?case by simp
qed

text \<open>
  C1. For every sequence of feature records (dicts whose \<^verbatim>\<open>passes\<close> field, when present,
  is a boolean), the first loop raises nothing and the set it builds holds exactly the
  numbers position + 1 of the records whose \<^verbatim>\<open>passes\<close> field is present and \<^verbatim>\<open>true\<close>; a
  record whose \<^verbatim>\<open>passes\<close> is absent or \<^verbatim>\<open>false\<close> is not in the set.
\<close>

theorem passing_tests_exact:
  assumes "\<forall>f\<in>set fs. passes_boolean f"
  shows "\<exists>P. passing_tests (JArr fs) = Inr P \<and>
           P = {int i + 1 | i. i < length fs \<and> field_of (fs ! i) ''passes'' = Some (JBool True)} \<and>
           (\<forall>i<length fs. field_of (fs ! i) ''passes'' = None \<or> field_of (fs ! i) ''passes'' = Some (JBool False)
               \<longrightarrow> int i + 1 \<notin> P)"
proof -
  from assms have dicts: "\<forall>f\<in>set fs. is_dict f"
    by (simp add: passes_boolean_def)
  then obtain P where P: "passing_loop 0 fs {} = Inr P"
    using passing_loop_total by blast
  have typed: "truthy (dict_get d ''passes'' (JBool False)) = (map_of d ''passes'' = Some (JBool True))"
    if "k < length fs" "fs ! k = JObj d" for k d
  proof -
    from that assms have "passes_boolean (JObj d)"
      by (metis nth_mem)
    then show ?thesis
      by (auto simp: passes_boolean_def field_of_def dict_get_def split: option.splits json.splits)
  qed
  have dict: "\<exists>d. fs ! k = JObj d" if "k < length fs" for k
  proof -
    from that dicts have "is_dict (fs ! k)"
      by simp
    then show ?thesis
      by (cases "fs ! k") (simp_all add: is_dict_def)
  qed
  have mem: "(n \<in> P) = (\<exists>k<length fs. n = int k + 1 \<and> field_of (fs ! k) ''passes'' = Some (JBool True))" for n
    unfolding passing_loop_mem [OF P, of n]
    using typed dict by (fastforce simp: field_of_def)
  have "P = {int i + 1 | i. i < length fs \<and> field_of (fs ! i) ''passes'' = Some (JBool True)}"
    using mem by auto
  moreover have "int i + 1 \<notin> P"
    if "i < length fs" "field_of (fs ! i) ''passes'' = None \<or> field_of (fs ! i) ''passes'' = Some (JBool False)" for i
    using that mem [of "int i + 1"] by auto
  ultimately show ?thesis
    using P by (simp add: passing_tests_def)
qed

theorem passing_tests_exact_witness:
  "list_all passes_boolean
      [JObj [(''passes'', JBool True)], JObj [], JObj [(''passes'', JBool False)]] \<and>
   passing_tests (JArr [JObj [(''passes'', JBool True)], JObj [], JObj [(''passes'', JBool False)]])
     = Inr {1}"
proof -
  let ?fs = "[JObj [(''passes'', JBool True)], JObj [], JObj [(''passes'', JBool False)]]"
  have h: "\<forall>f\<in>set ?fs. passes_boolean f"
    by (simp add: passes_boolean_def is_dict_def field_of_def)
  have "{int i + 1 | i. i < length ?fs \<and> field_of (?fs ! i) ''passes'' = Some (JBool True)} = {1}"
    by (auto simp: field_of_def less_Suc_eq numeral_3_eq_3)
  with passing_tests_exact [OF h] h show ?thesis
    by (simp add: list_all_iff)
qed

section \<open>Properties of the eligible features\<close>

text \<open>What the loop body has checked when it appends a candidate.\<close>

lemma loop_body_Some:
  assumes "loop_body P n f = Inr (Some c)"
  shows "\<exists>d s. f = JObj d \<and>
           \<not> truthy (dict_get d ''passes'' (JBool True)) \<and>
           dict_get d ''description'' (JStr '''') = JStr s \<and>
           \<not> substring_in ''database'' (lower s) \<and>
           \<not> substring_in ''postgresql'' (lower s) \<and>
           (dict_get d ''complexity'' JNull = JStr ''simple'' \<or>
            dict_get d ''complexity'' JNull = JStr ''medium'') \<and>
           deps_met (dict_get d ''dependencies'' (JArr [])) P = Inr True \<and>
           list_ex (\<lambda>keyword. substring_in keyword (lower s)) frontend_keywords \<and>
           test_num c = n \<and>
           description c = dict_get d ''description'' (JStr '''') \<and>
           complexity c = dict_get d ''complexity'' (JStr '''') \<and>
           dependencies c = dict_get d ''dependencies'' (JArr []) \<and>
           category c = dict_get d ''category'' (JStr '''')"
proof -
  from assms obtain d where f: "f = JObj d"
    by (cases f) auto
  from assms f obtain s where s: "dict_get d ''description'' (JStr '''') = JStr s"
    by (cases "dict_get d ''description'' (JStr '''')") (auto split: if_splits)
  from assms show ?thesis
    unfolding f
    by (auto simp: s Let_def split: if_splits sum.splits bool.splits)
qed

text \<open>
  Every candidate collected comes from one record of the input, the one that has its
  \<open>test_num\<close>; a record on which the loop body appends nothing is no candidate.
\<close>

lemma candidates_loop_origin:
  "candidates_loop P i fs acc = Inr cs \<Longrightarrow> c \<in> set cs \<Longrightarrow>
   c \<in> set acc \<or> (\<exists>k<length fs. loop_body P (i + int k + 1) (fs ! k) = Inr (Some c))"
proof (induction fs arbitrary: i acc)
  case Nil
  then show ?case by simp
next
  case (Cons f fs)
  show ?case
  proof (cases "loop_body P (i + 1) f")
    case (Inl e)
    with Cons.prems show ?thesis by simp
  next
    case (Inr r)
    show ?thesis
    proof (cases r)
      case None
      with Inr Cons.prems have "candidates_loop P (i + 1) fs acc = Inr cs"
        by simp
      from Cons.IH [OF this Cons.prems(2)] show ?thesis
        by (auto simp: Ex_less_Suc2 algebra_simps)
    next
      case (Some c')
      with Inr Cons.prems have "candidates_loop P (i + 1) fs (acc @ [c']) = Inr cs"
        by simp
      from Cons.IH [OF this Cons.prems(2)] Inr Some show ?thesis
        by (auto simp: Ex_less_Suc2 algebra_simps)
    qed
  qed
qed

lemma candidate_origin:
  assumes "find_candidates features P = Inr cs" "c \<in> set cs"
  shows "\<exists>d. record_of features (test_num c) = Some (JObj d) \<and>
             loop_body P (test_num c) (JObj d) = Inr (Some c)"
proof -
  from assms(1) obtain fs where fs: "py_iter features = Inr fs"
    and loop: "candidates_loop P 0 fs [] = Inr cs"
    by (auto simp: find_candidates_def split: sum.splits)
  from candidates_loop_origin [OF loop assms(2)]
  obtain k where k: "k < length fs" and body: "loop_body P (int k + 1) (fs ! k) = Inr (Some c)"
    by auto
  from loop_body_Some [OF body] obtain d where d: "fs ! k = JObj d" and n: "test_num c = int k + 1"
    by auto
  from k n have "record_of features (test_num c) = Some (fs ! k)"
    by (simp add: record_of_def fs)
  with d body n show ?thesis
    by simp
qed

lemma candidate_excluded:
  assumes "find_candidates features P = Inr cs"
    and "record_of features n = Some (JObj d)"
    and "\<And>c. loop_body P n (JObj d) \<noteq> Inr (Some c)"
  shows "n \<notin> test_num ` set cs"
proof
  assume "n \<in> test_num ` set cs"
  then obtain c where c: "c \<in> set cs" "test_num c = n"
    by auto
  from candidate_origin [OF assms(1) c(1)] c(2) assms(2) assms(3) show False
    by auto
qed

lemma all_passing_True:
  "all_passing ds P = Inr True \<Longrightarrow> dep \<in> set ds \<Longrightarrow> py_in dep P = Inr True"
  by (induction ds) (auto split: sum.splits bool.splits)

text \<open>The two loops on the sample input.\<close>

lemma sample_passing: "passing_tests sample_features = Inr {1}"
  by code_simp

lemma sample_found: "find_candidates sample_features {1} = Inr sample_candidates"
  by code_simp

text \<open>
  C2. For every candidate that the second loop produces, the \<^verbatim>\<open>passes\<close> field of the record
  it comes from is present and falsy, which for a record typed as the data model says (a
  boolean \<^verbatim>\<open>passes\<close>) means exactly \<^verbatim>\<open>false\<close>; a record without a \<^verbatim>\<open>passes\<close> field is
  never a candidate.
\<close>

theorem candidate_passes_false:
  assumes "find_candidates features P = Inr cs"
  shows "(\<forall>c\<in>set cs. \<exists>d v. record_of features (test_num c) = Some (JObj d) \<and>
            map_of d ''passes'' = Some v \<and> \<not> truthy v \<and>
            (passes_boolean (JObj d) \<longrightarrow> v = JBool False)) \<and>
         (\<forall>n d. record_of features n = Some (JObj d) \<longrightarrow> map_of d ''passes'' = None \<longrightarrow>
            n \<notin> test_num ` set cs)"
proof (intro conjI ballI allI impI)
  fix c assume "c \<in> set cs"
  from candidate_origin [OF assms this] obtain d
    where d: "record_of features (test_num c) = Some (JObj d)"
      and body: "loop_body P (test_num c) (JObj d) = Inr (Some c)"
    by blast
  from loop_body_Some [OF body] have falsy: "\<not> truthy (dict_get d ''passes'' (JBool True))"
    by auto
  then obtain v where v: "map_of d ''passes'' = Some v" "\<not> truthy v"
    by (cases "map_of d ''passes''") (auto simp: dict_get_def)
  have "passes_boolean (JObj d) \<longrightarrow> v = JBool False"
    using v by (cases v) (auto simp: passes_boolean_def field_of_def)
  with d v show "\<exists>d v. record_of features (test_num c) = Some (JObj d) \<and>
            map_of d ''passes'' = Some v \<and> \<not> truthy v \<and>
            (passes_boolean (JObj d) \<longrightarrow> v = JBool False)"
    by blast
next
  fix n d
  assume r: "record_of features n = Some (JObj d)" and "map_of d ''passes'' = None"
  then have "loop_body P n (JObj d) = Inr None"
    by (simp add: dict_get_def)
  then show "n \<notin> test_num ` set cs"
    using candidate_excluded [OF assms r] by simp
qed

theorem candidate_passes_false_witness:
  "find_candidates sample_features {1} = Inr sample_candidates \<and>
   record_of sample_features 3 =
     Some (JObj [(''description'', JStr ''Settings page''), (''complexity'', JStr ''simple'')]) \<and>
   3 \<notin> test_num ` set sample_candidates \<and>
   sample_candidates ! 0 \<in> set sample_candidates \<and>
   (\<exists>d v. record_of sample_features (test_num (sample_candidates ! 0)) = Some (JObj d) \<and>
      map_of d ''passes'' = Some v \<and> \<not> truthy v \<and> (passes_boolean (JObj d) \<longrightarrow> v = JBool False))"
proof -
  have r: "record_of sample_features 3 =
     Some (JObj [(''description'', JStr ''Settings page''), (''complexity'', JStr ''simple'')])"
    by code_simp
  have m: "map_of [(''description'', JStr ''Settings page''), (''complexity'', JStr ''simple'')] ''passes'' = None"
    by simp
  have c: "sample_candidates ! 0 \<in> set sample_candidates"
    by (simp add: sample_candidates_def)
  note excluded = candidate_passes_false [OF sample_found, THEN conjunct2, rule_format]
  note included = candidate_passes_false [OF sample_found, THEN conjunct1, rule_format]
  from excluded [OF r m] included [OF c] sample_found r c show ?thesis
    by (intro conjI)
qed

text \<open>
  C7. For every candidate produced, the description of its record is a string whose
  lower-cased copy contains neither "database" nor "postgresql"; a record whose lower-cased
  description contains one of them is no candidate, whatever its other fields are.
\<close>

theorem candidate_not_database:
  assumes "find_candidates features P = Inr cs"
  shows "(\<forall>c\<in>set cs. \<exists>d s. record_of features (test_num c) = Some (JObj d) \<and>
            dict_get d ''description'' (JStr '''') = JStr s \<and>
            \<not> substring_in ''database'' (lower s) \<and> \<not> substring_in ''postgresql'' (lower s)) \<and>
         (\<forall>n d s. record_of features n = Some (JObj d) \<longrightarrow>
            dict_get d ''description'' (JStr '''') = JStr s \<longrightarrow>
            substring_in ''database'' (lower s) \<or> substring_in ''postgresql'' (lower s) \<longrightarrow>
            n \<notin> test_num ` set cs)"
proof (intro conjI ballI allI impI)
  fix c assume "c \<in> set cs"
  from candidate_origin [OF assms this] obtain d
    where d: "record_of features (test_num c) = Some (JObj d)"
      and body: "loop_body P (test_num c) (JObj d) = Inr (Some c)"
    by blast
  from loop_body_Some [OF body] d
  show "\<exists>d s. record_of features (test_num c) = Some (JObj d) \<and>
            dict_get d ''description'' (JStr '''') = JStr s \<and>
            \<not> substring_in ''database'' (lower s) \<and> \<not> substring_in ''postgresql'' (lower s)"
    by auto
next
  fix n d s
  assume r: "record_of features n = Some (JObj d)"
    and s: "dict_get d ''description'' (JStr '''') = JStr s"
    and db: "substring_in ''database'' (lower s) \<or> substring_in ''postgresql'' (lower s)"
  have "loop_body P n (JObj d) \<noteq> Inr (Some c)" for c
  proof
    assume "loop_body P n (JObj d) = Inr (Some c)"
    from loop_body_Some [OF this] s db show False
      by auto
  qed
  then show "n \<notin> test_num ` set cs"
    using candidate_excluded [OF assms r] by simp
qed

theorem candidate_not_database_witness:
  "find_candidates sample_features {1} = Inr sample_candidates \<and>
   record_of sample_features 4 =
     Some (JObj [(''passes'', JBool False), (''description'', JStr ''PostgreSQL settings UI''),
                 (''complexity'', JStr ''simple'')]) \<and>
   substring_in ''postgresql'' (lower ''PostgreSQL settings UI'') \<and>
   4 \<notin> test_num ` set sample_candidates"
proof -
  have r: "record_of sample_features 4 =
     Some (JObj [(''passes'', JBool False), (''description'', JStr ''PostgreSQL settings UI''),
                 (''complexity'', JStr ''simple'')])"
    by code_simp
  have s: "dict_get [(''passes'', JBool False), (''description'', JStr ''PostgreSQL settings UI''),
                 (''complexity'', JStr ''simple'')] ''description'' (JStr '''')
           = JStr ''PostgreSQL settings UI''"
    by code_simp
  have p: "substring_in ''postgresql'' (lower ''PostgreSQL settings UI'')"
    by code_simp
  note excluded = candidate_not_database [OF sample_found, THEN conjunct2, rule_format]
  from excluded [OF r s disjI2 [OF p]] sample_found r p show ?thesis
    by (intro conjI)
qed

text \<open>
  C8. For every candidate produced, the \<^verbatim>\<open>complexity\<close> field of its record is present and
  is exactly "simple" or exactly "medium"; a record with any other value there, or with
  none, is no candidate, whatever its other fields are.
\<close>

theorem candidate_complexity:
  assumes "find_candidates features P = Inr cs"
  shows "(\<forall>c\<in>set cs. \<exists>d. record_of features (test_num c) = Some (JObj d) \<and>
            (map_of d ''complexity'' = Some (JStr ''simple'') \<or>
             map_of d ''complexity'' = Some (JStr ''medium''))) \<and>
         (\<forall>n d. record_of features n = Some (JObj d) \<longrightarrow>
            map_of d ''complexity'' \<noteq> Some (JStr ''simple'') \<longrightarrow>
            map_of d ''complexity'' \<noteq> Some (JStr ''medium'') \<longrightarrow>
            n \<notin> test_num ` set cs)"
proof (intro conjI ballI allI impI)
  fix c assume "c \<in> set cs"
  from candidate_origin [OF assms this] obtain d
    where d: "record_of features (test_num c) = Some (JObj d)"
      and body: "loop_body P (test_num c) (JObj d) = Inr (Some c)"
    by blast
  from loop_body_Some [OF body]
  have "dict_get d ''complexity'' JNull = JStr ''simple'' \<or>
        dict_get d ''complexity'' JNull = JStr ''medium''"
    by auto
  then have "map_of d ''complexity'' = Some (JStr ''simple'') \<or>
             map_of d ''complexity'' = Some (JStr ''medium'')"
    by (cases "map_of d ''complexity''") (auto simp: dict_get_def)
  with d show "\<exists>d. record_of features (test_num c) = Some (JObj d) \<and>
            (map_of d ''complexity'' = Some (JStr ''simple'') \<or>
             map_of d ''complexity'' = Some (JStr ''medium''))"
    by blast
next
  fix n d
  assume r: "record_of features n = Some (JObj d)"
    and ns: "map_of d ''complexity'' \<noteq> Some (JStr ''simple'')"
    and nm: "map_of d ''complexity'' \<noteq> Some (JStr ''medium'')"
  have "loop_body P n (JObj d) \<noteq> Inr (Some c)" for c
  proof
    assume "loop_body P n (JObj d) = Inr (Some c)"
    from loop_body_Some [OF this]
    have "dict_get d ''complexity'' JNull = JStr ''simple'' \<or>
          dict_get d ''complexity'' JNull = JStr ''medium''"
      by auto
    with ns nm show False
      by (cases "map_of d ''complexity''") (auto simp: dict_get_def)
  qed
  then show "n \<notin> test_num ` set cs"
    using candidate_excluded [OF assms r] by simp
qed

theorem candidate_complexity_witness:
  "find_candidates sample_features {1} = Inr sample_candidates \<and>
   record_of sample_features 5 =
     Some (JObj [(''passes'', JBool False), (''description'', JStr ''Logout button''),
                 (''complexity'', JStr ''complex'')]) \<and>
   5 \<notin> test_num ` set sample_candidates"
proof -
  have r: "record_of sample_features 5 =
     Some (JObj [(''passes'', JBool False), (''description'', JStr ''Logout button''),
                 (''complexity'', JStr ''complex'')])"
    by code_simp
  have ns: "map_of [(''passes'', JBool False), (''description'', JStr ''Logout button''),
                 (''complexity'', JStr ''complex'')] ''complexity'' \<noteq> Some (JStr ''simple'')"
    by simp
  have nm: "map_of [(''passes'', JBool False), (''description'', JStr ''Logout button''),
                 (''complexity'', JStr ''complex'')] ''complexity'' \<noteq> Some (JStr ''medium'')"
    by simp
  note excluded = candidate_complexity [OF sample_found, THEN conjunct2, rule_format]
  from excluded [OF r ns nm] sample_found r show ?thesis
    by (intro conjI)
qed

text \<open>
  C4. For every candidate produced whose \<^verbatim>\<open>dependencies\<close> is a non-empty list, every item of
  the list is in the set of passing tests (\<^verbatim>\<open>dep in passing_tests\<close> is true, so an integer
  item is an element of the set); for a record whose \<^verbatim>\<open>dependencies\<close> is absent or the
  empty list, the dependency filter lets the record through.
\<close>

theorem candidate_dependencies_passing:
  assumes "passing_tests features = Inr P" "find_candidates features P = Inr cs"
  shows "(\<forall>c\<in>set cs. \<forall>deps. dependencies c = JArr deps \<longrightarrow>
            (\<forall>dep\<in>set deps. py_in dep P = Inr True \<and> (\<forall>n. dep = JInt n \<longrightarrow> n \<in> P))) \<and>
         (\<forall>d. map_of d ''dependencies'' = None \<or> map_of d ''dependencies'' = Some (JArr []) \<longrightarrow>
            deps_met (dict_get d ''dependencies'' (JArr [])) P = Inr True)"
proof (intro conjI ballI allI impI)
  fix c deps dep
  assume c: "c \<in> set cs" and deps: "dependencies c = JArr deps" and dep: "dep \<in> set deps"
  from candidate_origin [OF assms(2) c] obtain d
    where body: "loop_body P (test_num c) (JObj d) = Inr (Some c)"
    by blast
  from loop_body_Some [OF body] deps have met: "deps_met (JArr deps) P = Inr True"
    by auto
  from dep have "deps \<noteq> []"
    by auto
  with met have "all_passing deps P = Inr True"
    by (simp add: deps_met_def)
  from all_passing_True [OF this dep] show "py_in dep P = Inr True" .
  then show "n \<in> P" if "dep = JInt n" for n
    using that by simp
next
  fix d
  assume "map_of d ''dependencies'' = None \<or> map_of d ''dependencies'' = Some (JArr [])"
  then show "deps_met (dict_get d ''dependencies'' (JArr [])) P = Inr True"
    by (auto simp: dict_get_def deps_met_def)
qed

theorem candidate_dependencies_passing_witness:
  "passing_tests sample_features = Inr {1} \<and>
   find_candidates sample_features {1} = Inr sample_candidates \<and>
   sample_candidates ! 0 \<in> set sample_candidates \<and>
   dependencies (sample_candidates ! 0) = JArr [JInt 1] \<and>
   py_in (JInt 1) {1} = Inr True \<and>
   deps_met (dict_get [] ''dependencies'' (JArr [])) {1} = Inr True"
proof -
  have c: "sample_candidates ! 0 \<in> set sample_candidates"
    and d: "dependencies (sample_candidates ! 0) = JArr [JInt 1]"
    by (simp_all add: sample_candidates_def)
  have mem: "JInt 1 \<in> set [JInt 1]"
    by simp
  have absent: "map_of ([] :: (string \<times> json) list) ''dependencies'' = None \<or>
                map_of ([] :: (string \<times> json) list) ''dependencies'' = Some (JArr [])"
    by simp
  note listed = candidate_dependencies_passing [OF sample_passing sample_found, THEN conjunct1,
      rule_format, OF c d mem, THEN conjunct1]
  note trivial = candidate_dependencies_passing [OF sample_passing sample_found, THEN conjunct2,
      rule_format, OF absent]
  from listed trivial sample_passing sample_found c d show ?thesis
    by (intro conjI)
qed

text \<open>
  C9. For every candidate produced, the description of its record is present and its
  lower-cased copy contains one of the nineteen keywords of \<open>frontend_keywords\<close> as a
  contiguous substring: some text before, the keyword, some text after, with no condition on
  word boundaries.
\<close>

theorem candidate_frontend_keyword:
  assumes "find_candidates features P = Inr cs" "c \<in> set cs"
  shows "\<exists>d s keyword before after.
           record_of features (test_num c) = Some (JObj d) \<and>
           map_of d ''description'' = Some (JStr s) \<and>
           keyword \<in> set frontend_keywords \<and>
           lower s = before @ keyword @ after"
proof -
  from candidate_origin [OF assms] obtain d
    where d: "record_of features (test_num c) = Some (JObj d)"
      and body: "loop_body P (test_num c) (JObj d) = Inr (Some c)"
    by blast
  from loop_body_Some [OF body] obtain s
    where s: "dict_get d ''description'' (JStr '''') = JStr s"
      and ex: "list_ex (\<lambda>keyword. substring_in keyword (lower s)) frontend_keywords"
    by auto
  from ex obtain keyword where k: "keyword \<in> set frontend_keywords" "substring_in keyword (lower s)"
    by (auto simp: list_ex_iff)
  then obtain before after where split: "lower s = before @ keyword @ after"
    by (auto simp: substring_in_def sublist_def)
  have "keyword \<noteq> []"
    using k(1) by (auto simp: frontend_keywords_def)
  with split have "lower s \<noteq> []"
    by auto
  then have "s \<noteq> []"
    by (auto simp: lower_def)
  with s have "map_of d ''description'' = Some (JStr s)"
    by (cases "map_of d ''description''") (auto simp: dict_get_def)
  with d k(1) split show ?thesis
    by blast
qed

theorem candidate_frontend_keyword_witness:
  "find_candidates sample_features {1} = Inr sample_candidates \<and>
   sample_candidates ! 1 \<in> set sample_candidates \<and>
   lower ''Rebuild the cache'' = ''reb'' @ ''ui'' @ ''ld the cache'' \<and>
   (\<exists>d s keyword before after.
      record_of sample_features (test_num (sample_candidates ! 1)) = Some (JObj d) \<and>
      map_of d ''description'' = Some (JStr s) \<and>
      keyword \<in> set frontend_keywords \<and>
      lower s = before @ keyword @ after)"
proof -
  have c: "sample_candidates ! 1 \<in> set sample_candidates"
    by (simp add: sample_candidates_def)
  have l: "lower ''Rebuild the cache'' = ''reb'' @ ''ui'' @ ''ld the cache''"
    by code_simp
  from candidate_frontend_keyword [OF sample_found c] sample_found c l show ?thesis
    by (intro conjI)
qed

text \<open>
  C10. Sorting keeps the candidates as they are (the ranked list is a permutation of the
  collected one), and every ranked candidate carries the \<^verbatim>\<open>description\<close>, \<^verbatim>\<open>complexity\<close>,
  \<^verbatim>\<open>dependencies\<close> and \<^verbatim>\<open>category\<close> of its record, with the defaults \<^verbatim>\<open>''\<close>, \<^verbatim>\<open>''\<close>, \<^verbatim>\<open>[]\<close>
  and \<^verbatim>\<open>''\<close> for an absent field: the description is the original one, not its lower-cased
  copy.
\<close>

theorem candidate_fields_unchanged:
  assumes "find_candidates features P = Inr cs"
  shows "mset (rank cs) = mset cs \<and>
         (\<forall>c\<in>set (rank cs). \<exists>d. record_of features (test_num c) = Some (JObj d) \<and>
            description c = dict_get d ''description'' (JStr '''') \<and>
            complexity c = dict_get d ''complexity'' (JStr '''') \<and>
            dependencies c = dict_get d ''dependencies'' (JArr []) \<and>
            category c = dict_get d ''category'' (JStr ''''))"
proof (intro conjI ballI)
  show "mset (rank cs) = mset cs"
    by (simp add: rank_def)
next
  fix c assume "c \<in> set (rank cs)"
  then have "c \<in> set cs"
    by (simp add: rank_def)
  from candidate_origin [OF assms this] obtain d
    where d: "record_of features (test_num c) = Some (JObj d)"
      and body: "loop_body P (test_num c) (JObj d) = Inr (Some c)"
    by blast
  from loop_body_Some [OF body] d
  show "\<exists>d. record_of features (test_num c) = Some (JObj d) \<and>
            description c = dict_get d ''description'' (JStr '''') \<and>
            complexity c = dict_get d ''complexity'' (JStr '''') \<and>
            dependencies c = dict_get d ''dependencies'' (JArr []) \<and>
            category c = dict_get d ''category'' (JStr '''')"
    by auto
qed

theorem candidate_fields_unchanged_witness:
  "find_candidates sample_features {1} = Inr sample_candidates \<and>
   mset (rank sample_candidates) = mset sample_candidates \<and>
   map description (rank sample_candidates) =
     [JStr ''Add dark mode toggle button'', JStr ''Loading spinner'', JStr ''Rebuild the cache'']"
proof -
  have shown: "map description (rank sample_candidates) =
     [JStr ''Add dark mode toggle button'', JStr ''Loading spinner'', JStr ''Rebuild the cache'']"
    by code_simp
  note same = candidate_fields_unchanged [OF sample_found, THEN conjunct1]
  from sample_found same shown show ?thesis
    by (intro conjI)
qed

section \<open>Properties of the ranking\<close>

text \<open>The second loop collects the candidates with increasing, hence distinct, numbers.\<close>

lemma candidates_loop_increasing:
  "candidates_loop P i fs acc = Inr cs \<Longrightarrow> sorted_wrt (<) (map test_num acc) \<Longrightarrow>
   \<forall>a\<in>set acc. test_num a \<le> i \<Longrightarrow> sorted_wrt (<) (map test_num cs)"
proof (induction fs arbitrary: i acc)
  case Nil
  then show ?case by simp
next
  case (Cons f fs)
  show ?case
  proof (cases "loop_body P (i + 1) f")
    case (Inl e)
    with Cons.prems show ?thesis by simp
  next
    case (Inr r)
    show ?thesis
    proof (cases r)
      case None
      with Inr Cons.prems have "candidates_loop P (i + 1) fs acc = Inr cs"
        by simp
      moreover from Cons.prems have "\<forall>a\<in>set acc. test_num a \<le> i + 1"
        by auto
      ultimately show ?thesis
        using Cons.IH Cons.prems(2) by blast
    next
      case (Some c')
      with Inr Cons.prems have loop: "candidates_loop P (i + 1) fs (acc @ [c']) = Inr cs"
        by simp
      from Inr Some loop_body_Some have n: "test_num c' = i + 1"
        by fastforce
      with Cons.prems have "sorted_wrt (<) (map test_num (acc @ [c']))"
        by (auto simp: sorted_wrt_append)
      moreover from n Cons.prems have "\<forall>a\<in>set (acc @ [c']). test_num a \<le> i + 1"
        by auto
      ultimately show ?thesis
        using Cons.IH loop by blast
    qed
  qed
qed

lemma candidates_distinct:
  assumes "find_candidates features P = Inr cs"
  shows "distinct (map test_num cs)"
proof -
  from assms obtain fs where "candidates_loop P 0 fs [] = Inr cs"
    by (auto simp: find_candidates_def split: sum.splits)
  from candidates_loop_increasing [OF this] have "sorted_wrt (<) (map test_num cs)"
    by simp
  then show ?thesis
    by (simp add: strict_sorted_iff)
qed

lemma rank_strict:
  assumes "find_candidates features P = Inr cs"
  shows "sorted_wrt (<) (map rank_key (rank cs))"
proof -
  have "distinct (map test_num (rank cs))"
    using candidates_distinct [OF assms]
    by (metis rank_def distinct_map distinct_sort set_sort inj_on_def distinct_map)
  then have "distinct (map (snd \<circ> rank_key) (rank cs))"
    by (simp add: rank_key_def comp_def)
  then have "distinct (map rank_key (rank cs))"
    by (metis distinct_map map_map)
  moreover have "sorted (map rank_key (rank cs))"
    by (simp add: rank_def)
  ultimately show ?thesis
    by (simp add: strict_sorted_iff)
qed

text \<open>
  C3. After ranking, every candidate is "simple" or "medium"; no "medium" candidate stands
  before a "simple" one; and of two candidates of the same complexity the earlier one has the
  strictly smaller \<open>test_num\<close>.
\<close>

theorem rank_order:
  assumes "find_candidates features P = Inr cs" "i < j" "j < length (rank cs)"
  shows "(complexity (rank cs ! i) = JStr ''simple'' \<or> complexity (rank cs ! i) = JStr ''medium'') \<and>
         (complexity (rank cs ! j) = JStr ''simple'' \<or> complexity (rank cs ! j) = JStr ''medium'') \<and>
         \<not> (complexity (rank cs ! i) = JStr ''medium'' \<and> complexity (rank cs ! j) = JStr ''simple'') \<and>
         (complexity (rank cs ! i) = complexity (rank cs ! j) \<longrightarrow>
            test_num (rank cs ! i) < test_num (rank cs ! j))"
proof -
  have tier: "complexity c = JStr ''simple'' \<or> complexity c = JStr ''medium''" if "c \<in> set (rank cs)" for c
  proof -
    from that have "c \<in> set cs"
      by (simp add: rank_def)
    from candidate_origin [OF assms(1) this] obtain d
      where body: "loop_body P (test_num c) (JObj d) = Inr (Some c)"
      by blast
    from loop_body_Some [OF body] show ?thesis
      by (cases "map_of d ''complexity''") (auto simp: dict_get_def)
  qed
  from assms have "rank_key (rank cs ! i) < rank_key (rank cs ! j)"
    using sorted_wrt_nth_less [OF rank_strict [OF assms(1)], of i j] by simp
  then have "\<not> (complexity (rank cs ! i) = JStr ''medium'' \<and> complexity (rank cs ! j) = JStr ''simple'')"
    and "complexity (rank cs ! i) = complexity (rank cs ! j) \<longrightarrow>
            test_num (rank cs ! i) < test_num (rank cs ! j)"
    by (auto simp: rank_key_def less_prod_def less_bool_def)
  moreover from assms have "rank cs ! i \<in> set (rank cs)" "rank cs ! j \<in> set (rank cs)"
    by simp_all
  ultimately show ?thesis
    using tier by blast
qed

theorem rank_order_witness:
  "find_candidates sample_features {1} = Inr sample_candidates \<and>
   (1::nat) < 2 \<and> 2 < length (rank sample_candidates) \<and>
   map test_num (rank sample_candidates) = [2, 8, 7] \<and>
   \<not> (complexity (rank sample_candidates ! 1) = JStr ''medium'' \<and>
      complexity (rank sample_candidates ! 2) = JStr ''simple'')"
proof -
  have len: "2 < length (rank sample_candidates)"
    by (simp add: rank_def sample_candidates_def)
  have order: "map test_num (rank sample_candidates) = [2, 8, 7]"
    by code_simp
  have lt: "(1::nat) < 2"
    by simp
  note tiers = rank_order [OF sample_found lt len, THEN conjunct2, THEN conjunct2, THEN conjunct1]
  from sample_found lt len order tiers show ?thesis
    by (intro conjI)
qed

section \<open>Properties of the report and of the script\<close>

lemma all_passing_ids:
  "list_all is_integer ds \<Longrightarrow> \<exists>b. all_passing ds P = Inr b"
proof (induction ds)
  case Nil
  then show ?case by auto
next
  case (Cons dep ds)
  then obtain n where "dep = JInt n"
    by (cases dep) auto
  with Cons show ?case
    by (cases "n \<in> P") auto
qed

lemma loop_body_total:
  assumes "feature_record f"
  shows "\<exists>r. loop_body P n f = Inr r"
proof -
  from assms obtain d where f: "f = JObj d"
    by (cases f) (auto simp: feature_record_def passes_boolean_def is_dict_def)
  from assms f obtain s where s: "dict_get d ''description'' (JStr '''') = JStr s"
    by (cases "map_of d ''description''")
      (auto simp: feature_record_def optional_def field_of_def dict_get_def elim: is_string.elims)
  have "\<exists>b. deps_met (dict_get d ''dependencies'' (JArr [])) P = Inr b"
  proof (cases "map_of d ''dependencies''")
    case None
    then show ?thesis
      by (auto simp: dict_get_def deps_met_def)
  next
    case (Some v)
    with assms f have "is_id_list v"
      by (simp add: feature_record_def optional_def field_of_def)
    then obtain ds where "v = JArr ds" "list_all is_integer ds"
      by (cases v) auto
    with Some all_passing_ids [of ds P] show ?thesis
      by (auto simp: dict_get_def deps_met_def)
  qed
  then obtain b where "deps_met (dict_get d ''dependencies'' (JArr [])) P = Inr b"
    by blast
  then show ?thesis
    unfolding f by (cases b) (simp_all add: s Let_def)
qed

lemma candidates_loop_total:
  "\<forall>f\<in>set fs. feature_record f \<Longrightarrow> \<exists>cs. candidates_loop P i fs acc = Inr cs"
proof (induction fs arbitrary: i acc)
  case Nil
  then show ?case by simp
next
  case (Cons f fs)
  then obtain r where "loop_body P (i + 1) f = Inr r"
    using loop_body_total [of f P "i + 1"] by auto
  with Cons show ?case
    by (cases r) auto
qed

lemma length_report: "length (filter is_title (report cs)) = min 10 (length cs)"
proof -
  have "length (filter is_title (concat (map block xs))) = length xs" for xs
    by (induction xs) (auto simp: block_def)
  then show ?thesis
    by (simp add: report_def min.commute)
qed

text \<open>Whenever both loops finish, the script raises nothing and prints the blocks.\<close>

lemma analyze_blocks:
  assumes "passing_tests features = Inr P" "find_candidates features P = Inr cs"
  shows "raised (analyze features) = None \<and>
         length (filter is_title (printed (analyze features))) = min 10 (length cs)"
  using assms by (simp add: analyze_def Let_def length_report rank_def)

lemma twelve_typed: "list_all feature_record twelve_records"
  by code_simp

lemma twelve_passing: "passing_tests (JArr twelve_records) = Inr {}"
  by code_simp

lemma twelve_candidates: "(case find_candidates (JArr twelve_records) {} of Inl e \<Rightarrow> 0 | Inr cs \<Rightarrow> length cs) = 12"
  by code_simp

text \<open>
  C5. On every list of feature records (typed as in the data model) both loops finish, the
  script raises no error, and the number of candidate blocks it prints is the smaller of 10
  and the number of candidates: 10 when more than ten qualify, all of them otherwise.
\<close>

theorem report_at_most_ten:
  assumes "\<forall>f\<in>set fs. feature_record f"
  shows "\<exists>P cs. passing_tests (JArr fs) = Inr P \<and> find_candidates (JArr fs) P = Inr cs \<and>
           raised (analyze (JArr fs)) = None \<and>
           length (filter is_title (printed (analyze (JArr fs)))) = min 10 (length cs)"
proof -
  from assms have "\<forall>f\<in>set fs. is_dict f"
    by (simp add: feature_record_def passes_boolean_def)
  then obtain P where P: "passing_tests (JArr fs) = Inr P"
    using passing_loop_total [of fs 0 "{}"] by (auto simp: passing_tests_def)
  from assms obtain cs where cs: "find_candidates (JArr fs) P = Inr cs"
    using candidates_loop_total [of fs P 0 "[]"] by (auto simp: find_candidates_def)
  from analyze_blocks [OF P cs] P cs show ?thesis
    by blast
qed

theorem report_at_most_ten_witness:
  "list_all feature_record twelve_records \<and>
   (case find_candidates (JArr twelve_records) {} of Inl e \<Rightarrow> 0 | Inr cs \<Rightarrow> length cs) = 12 \<and>
   raised (analyze (JArr twelve_records)) = None \<and>
   length (filter is_title (printed (analyze (JArr twelve_records)))) = 10"
proof -
  from twelve_typed have h: "\<forall>f\<in>set twelve_records. feature_record f"
    by (simp add: list_all_iff)
  from report_at_most_ten [OF h] obtain P cs
    where 1: "passing_tests (JArr twelve_records) = Inr P"
      and 2: "find_candidates (JArr twelve_records) P = Inr cs"
      and 3: "raised (analyze (JArr twelve_records)) = None"
      and 4: "length (filter is_title (printed (analyze (JArr twelve_records)))) = min 10 (length cs)"
    by blast
  from 1 twelve_passing have "P = {}"
    by simp
  with 2 twelve_candidates have "length cs = 12"
    by simp
  with 4 have "length (filter is_title (printed (analyze (JArr twelve_records)))) = 10"
    by simp
  with twelve_typed twelve_candidates 3 show ?thesis
    by (intro conjI)
qed

text \<open>
  C6. When the content of the file does not parse, the script ends with
  \<^verbatim>\<open>JSONDecodeError\<close> and has printed nothing.
\<close>

theorem malformed_input_no_output:
  "parse content = None \<Longrightarrow>
   script parse (Some content) = \<lparr>raised = Some JSONDecodeError, printed = []\<rparr>"
  by (simp add: script_def load_def)

theorem malformed_input_no_output_witness:
  "(\<lambda>s. if s = ''[]'' then Some (JArr []) else None) ''[{]'' = None \<and>
   script (\<lambda>s. if s = ''[]'' then Some (JArr []) else None) (Some ''[{]'')
     = \<lparr>raised = Some JSONDecodeError, printed = []\<rparr>"
proof -
  have h: "(\<lambda>s. if s = ''[]'' then Some (JArr []) else None) ''[{]'' = None"
    by simp
  from malformed_input_no_output
    [where parse = "\<lambda>s. if s = ''[]'' then Some (JArr []) else None" and content = "''[{]''"] h
  show ?thesis
    by simp
qed

end
